theory Spec2Isabelle
  imports Main "HOL-Library.Char_ord" "HOL-Library.List_Lexorder"
begin

section \<open>The csmith findings script\<close>

text \<open>
  The script \<^verbatim>\<open>new_csmith_findings.py\<close> lists the report files of a directory, reads the
  plan document, and prints the report identifiers the plan does not mention.

  A Python \<^verbatim>\<open>str\<close> is modelled as a \<^typ>\<open>string\<close> whose characters are code points
  below 256. On that range the class \<^verbatim>\<open>\d\<close> of Python's \<^verbatim>\<open>re\<close> module (Unicode decimal
  digits) is exactly \<^verbatim>\<open>0\<close> to \<^verbatim>\<open>9\<close>. Strings are compared as Python compares them:
  lexicographically, character by character, by code point.
\<close>

subsection \<open>The two regular expressions\<close>

text \<open>The class \<^verbatim>\<open>\d\<close>.\<close>

definition is_digit :: "char \<Rightarrow> bool" where
  "is_digit c \<longleftrightarrow> CHR ''0'' \<le> c \<and> c \<le> CHR ''9''"

text \<open>
  \<^verbatim>\<open>\d{8}-\d{6}\<close> matched at the start of \<open>s\<close>: eight digits, a hyphen, six digits. The
  match, when there is one, is the first 15 characters.
\<close>

definition match_id :: "string \<Rightarrow> bool" where
  "match_id s \<longleftrightarrow>
     15 \<le> length s \<and> list_all is_digit (take 8 s) \<and> s ! 8 = CHR ''-'' \<and>
     list_all is_digit (take 6 (drop 9 s))"

text \<open>
  \<^verbatim>\<open>re.findall(r'\d{8}-\d{6}', content)\<close>: the scan goes from left to right; a match is
  recorded and the scan resumes after its last character, otherwise it moves on by one
  character.
\<close>

fun findall :: "string \<Rightarrow> string list" where
  "findall [] = []"
| "findall (c # cs) =
     (if match_id (c # cs) then take 15 (c # cs) # findall (drop 14 cs) else findall cs)"

text \<open>
  The anchor \<^verbatim>\<open>$\<close> (no \<^verbatim>\<open>MULTILINE\<close> flag) holds at the end of the string and just
  before a newline that ends the string.
\<close>

definition at_dollar :: "string \<Rightarrow> bool" where
  "at_dollar rest \<longleftrightarrow> rest = [] \<or> rest = [CHR 0x0A]"

text \<open>
  \<^verbatim>\<open>report-(\d{8}-\d{6})\.md$\<close> matched at the start of \<open>s\<close>; the result is group 1.
\<close>

definition match_report :: "string \<Rightarrow> string option" where
  "match_report s =
     (if take 7 s = ''report-'' \<and> match_id (drop 7 s) \<and> take 3 (drop 22 s) = ''.md'' \<and>
         at_dollar (drop 25 s)
      then Some (take 15 (drop 7 s)) else None)"

text \<open>
  \<^verbatim>\<open>re.search(r'report-(\d{8}-\d{6})\.md$', f.name)\<close>: the first position, from the left,
  at which the pattern matches.
\<close>

fun search_report :: "string \<Rightarrow> string option" where
  "search_report [] = None"
| "search_report (c # cs) =
     (case match_report (c # cs) of Some ident \<Rightarrow> Some ident | None \<Rightarrow> search_report cs)"

subsection \<open>The file system the script reads\<close>

text \<open>
  The reports directory is absent (\<open>None\<close>) or has a list of entry names, in the order the
  host enumerates them. The plan file is absent (\<^verbatim>\<open>exists()\<close> is false), or it holds a
  text, or it exists and \<^verbatim>\<open>read_text()\<close> raises (it is no regular file, may not be read,
  or its bytes do not decode): the script catches nothing, so the run stops there.
\<close>

datatype plan = Absent | Content string | Unreadable

datatype error = ReadError

record fs =
  reports_dir :: "string list option"
  plan_file :: plan

text \<open>
  The name pattern \<^verbatim>\<open>report-*.md\<close> of \<^verbatim>\<open>glob\<close>: the whole name starts with
  \<^verbatim>\<open>report-\<close> and ends with \<^verbatim>\<open>.md\<close>, with any characters between (case matters,
  as on a POSIX host).
\<close>

definition fnmatch :: "string \<Rightarrow> bool" where
  "fnmatch name \<longleftrightarrow>
     10 \<le> length name \<and> take 7 name = ''report-'' \<and> drop (length name - 3) name = ''.md''"

text \<open>
  \<^verbatim>\<open>reports_dir.glob("report-*.md")\<close>: the entries of the directory whose names match.
  \<^verbatim>\<open>Path.glob\<close> does not raise on a path that is no directory: it yields nothing.
\<close>

definition glob :: "string list option \<Rightarrow> string list" where
  "glob dir = (case dir of None \<Rightarrow> [] | Some names \<Rightarrow> filter fnmatch names)"

subsection \<open>The script\<close>

text \<open>The body of the loop over the report files.\<close>

definition add_report :: "string \<Rightarrow> string set \<Rightarrow> string set" where
  "add_report name report_ids =
     (case search_report name of Some ident \<Rightarrow> insert ident report_ids | None \<Rightarrow> report_ids)"

definition report_ids :: "string list option \<Rightarrow> string set" where
  "report_ids dir = fold add_report (glob dir) {}"

definition mentioned_ids :: "plan \<Rightarrow> error + string set" where
  "mentioned_ids p =
     (case p of
        Absent \<Rightarrow> Inr {}
      | Content content \<Rightarrow> Inr (set (findall content))
      | Unreadable \<Rightarrow> Inl ReadError)"

definition new_ids :: "fs \<Rightarrow> error + string list" where
  "new_ids f =
     (case mentioned_ids (plan_file f) of
        Inl e \<Rightarrow> Inl e
      | Inr mentioned \<Rightarrow> Inr (sorted_list_of_set (report_ids (reports_dir f) - mentioned)))"

text \<open>The lines printed, in order.\<close>

definition print_ids :: "string list \<Rightarrow> string list" where
  "print_ids ids =
     (if ids \<noteq> []
      then fold (\<lambda>ident out. out @ [''  - [ ] '' @ ident]) ids [''New findings not in PLAN.md:'']
      else [''No new findings.''])"

definition main :: "fs \<Rightarrow> error + string list" where
  "main f = (case new_ids f of Inl e \<Rightarrow> Inl e | Inr ids \<Rightarrow> Inr (print_ids ids))"

text \<open>A run: what it prints (or the error it stops with) and the file system it leaves.\<close>

definition run :: "fs \<Rightarrow> (error + string list) \<times> fs" where
  "run f = (main f, f)"

subsection \<open>The shapes the specification names\<close>

text \<open>
  A report identifier, as the specification's data model describes it: eight digits, a
  hyphen, six digits, and nothing else.
\<close>

definition report_identifier :: "string \<Rightarrow> bool" where
  "report_identifier s \<longleftrightarrow>
     length s = 15 \<and> list_all is_digit (take 8 s) \<and> s ! 8 = CHR ''-'' \<and>
     list_all is_digit (drop 9 s)"

text \<open>
  The file name pattern of the specification, \<^verbatim>\<open>report-<8digits>-<6digits>.md\<close>, read as
  a pattern for the whole name.
\<close>

definition report_pattern :: "string \<Rightarrow> bool" where
  "report_pattern name \<longleftrightarrow>
     length name = 25 \<and> take 7 name = ''report-'' \<and>
     report_identifier (take 15 (drop 7 name)) \<and> drop 22 name = ''.md''"

text \<open>
  The regular expression \<^verbatim>\<open>^\d{8}-\d{6}$\<close> of the specification, searched in \<open>s\<close>: the
  pattern at the start of the string, then the anchor \<^verbatim>\<open>$\<close>.
\<close>

definition matches_anchored_id :: "string \<Rightarrow> bool" where
  "matches_anchored_id s \<longleftrightarrow> match_id s \<and> at_dollar (drop 15 s)"

section \<open>Auxiliary facts\<close>

subsection \<open>Printing\<close>

lemma fold_append_lines: "fold (\<lambda>x out. out @ [g x]) xs acc = acc @ map g xs"
  by (induction xs arbitrary: acc) simp_all

lemma print_ids_eq:
  "print_ids ids = (if ids = [] then [''No new findings.'']
     else ''New findings not in PLAN.md:'' # map (\<lambda>i. ''  - [ ] '' @ i) ids)"
  by (simp add: print_ids_def fold_append_lines)

subsection \<open>The identifier pattern\<close>

lemma report_identifier_iff: "report_identifier s \<longleftrightarrow> length s = 15 \<and> match_id s"
  by (auto simp: report_identifier_def match_id_def)

lemma match_id_take_iff: "match_id (take 15 s) = match_id s"
  by (simp add: match_id_def drop_take)

lemma match_id_append: "match_id s \<Longrightarrow> match_id (s @ t)"
  by (simp add: match_id_def nth_append)

text \<open>
  The hyphen of a match is no digit, so no other match starts at one of the eight
  positions after the start of a match.
\<close>

lemma no_overlap:
  assumes "match_id s" "1 \<le> j" "j \<le> 8"
  shows "\<not> match_id (drop j s)"
proof
  assume m: "match_id (drop j s)"
  from assms have len: "15 \<le> length s" and h: "s ! 8 = CHR ''-''"
    by (simp_all add: match_id_def)
  from m have "list_all is_digit (take 8 (drop j s))" by (simp add: match_id_def)
  moreover have "8 - j < length (take 8 (drop j s))" using assms len by simp
  ultimately have "is_digit (take 8 (drop j s) ! (8 - j))"
    by (simp only: list_all_length)
  moreover have "take 8 (drop j s) ! (8 - j) = s ! 8" using assms len by simp
  ultimately show False using h by (simp add: is_digit_def)
qed

subsection \<open>The scan of the plan text\<close>

lemma findall_sound:
  "x \<in> set (findall s) \<Longrightarrow> report_identifier x \<and> (\<exists>pre post. s = pre @ x @ post)"
proof (induction s rule: findall.induct)
  case 1
  then show ?case by simp
next
  case (2 c cs)
  show ?case
  proof (cases "match_id (c # cs)")
    case True
    with "2.prems" consider "x = take 15 (c # cs)" | "x \<in> set (findall (drop 14 cs))"
      by auto
    then show ?thesis
    proof cases
      case 1
      have "c # cs = [] @ x @ drop 15 (c # cs)" using 1 by simp
      moreover have "length x = 15" using True 1 by (simp add: match_id_def)
      moreover have "match_id x" using True 1 by (simp only: match_id_take_iff)
      ultimately show ?thesis by (simp only: report_identifier_iff) blast
    next
      case 2
      with "2.IH"(1) [OF True] obtain pre post where
        i: "report_identifier x" and e: "drop 14 cs = pre @ x @ post" by blast
      have "c # cs = (c # take 14 cs @ pre) @ x @ post"
        using e append_take_drop_id [of 14 cs] by simp
      with i show ?thesis by blast
    qed
  next
    case False
    with "2.prems" have "x \<in> set (findall cs)" by simp
    with "2.IH"(2) [OF False] obtain pre post where
      i: "report_identifier x" and e: "cs = pre @ x @ post" by blast
    have "c # cs = (c # pre) @ x @ post" using e by simp
    with i show ?thesis by blast
  qed
qed

text \<open>
  A match at position \<open>j\<close> is recorded unless the scan is inside an earlier match when it
  passes \<open>j\<close>; such an earlier match starts 9 to 14 characters before \<open>j\<close>.
\<close>

lemma findall_complete:
  "match_id (drop j s) \<Longrightarrow> (\<forall>i. i + 9 \<le> j \<and> j \<le> i + 14 \<longrightarrow> \<not> match_id (drop i s))
     \<Longrightarrow> take 15 (drop j s) \<in> set (findall s)"
proof (induction s arbitrary: j rule: findall.induct)
  case 1
  then show ?case by (simp add: match_id_def)
next
  case (2 c cs)
  show ?case
  proof (cases "match_id (c # cs)")
    case True
    consider "j = 0" | "1 \<le> j \<and> j \<le> 8" | "9 \<le> j \<and> j \<le> 14" | "15 \<le> j" by linarith
    then show ?thesis
    proof cases
      case 1
      with True show ?thesis by simp
    next
      case 2
      with no_overlap [OF True, of j] "2.prems"(1) show ?thesis by simp
    next
      case 3
      with "2.prems"(2) [rule_format, of 0] True show ?thesis by simp
    next
      case 4
      then obtain k where k: "j = k + 15" by (metis le_add_diff_inverse2)
      have d: "drop i (drop 14 cs) = drop (i + 15) (c # cs)" for i
      proof -
        have "i + 15 = Suc (i + 14)" by simp
        then show ?thesis by (simp only: drop_Suc_Cons drop_drop)
      qed
      have "take 15 (drop k (drop 14 cs)) \<in> set (findall (drop 14 cs))"
      proof (rule "2.IH"(1) [OF True])
        show "match_id (drop k (drop 14 cs))" using "2.prems"(1) k by (simp only: d)
        show "\<forall>i. i + 9 \<le> k \<and> k \<le> i + 14 \<longrightarrow> \<not> match_id (drop i (drop 14 cs))"
          using "2.prems"(2) k by (simp only: d) auto
      qed
      with True k show ?thesis by (simp only: d findall.simps if_True) simp
    qed
  next
    case False
    with "2.prems"(1) have "j \<noteq> 0" by (cases j) auto
    then obtain k where k: "j = Suc k" by (cases j) auto
    have "take 15 (drop k cs) \<in> set (findall cs)"
    proof (rule "2.IH"(2) [OF False])
      show "match_id (drop k cs)" using "2.prems"(1) k by simp
      show "\<forall>i. i + 9 \<le> k \<and> k \<le> i + 14 \<longrightarrow> \<not> match_id (drop i cs)"
        using "2.prems"(2) [rule_format, of "Suc _"] k by auto
    qed
    with False k show ?thesis by simp
  qed
qed


subsection \<open>The search in a file name\<close>

lemma match_report_length:
  assumes "match_report s = Some i"
  shows "length s = 25 \<or> (length s = 26 \<and> last s = CHR 0x0A)"
proof -
  from assms have m: "match_id (drop 7 s)" and t: "take 3 (drop 22 s) = ''.md''"
    and d: "at_dollar (drop 25 s)"
    by (simp_all add: match_report_def split: if_splits)
  from t have "length (take 3 (drop 22 s)) = 3" by simp
  then have len: "25 \<le> length s" by simp
  from d consider "drop 25 s = []" | "drop 25 s = [CHR 0x0A]" by (auto simp: at_dollar_def)
  then show ?thesis
  proof cases
    case 1
    with len show ?thesis by simp
  next
    case 2
    then have "length (drop 25 s) = 1" by simp
    then have l: "length s = 26" by simp
    have "s = take 25 s @ drop 25 s" by simp
    then have "last s = last (take 25 s @ [CHR 0x0A])" using 2 by metis
    with l show ?thesis by simp
  qed
qed

lemma search_report_last:
  "s = [] \<or> last s \<noteq> CHR 0x0A \<Longrightarrow>
   search_report s = (if 25 \<le> length s then match_report (drop (length s - 25) s) else None)"
proof (induction s)
  case Nil
  then show ?case by simp
next
  case (Cons c cs)
  have ih: "search_report cs =
      (if 25 \<le> length cs then match_report (drop (length cs - 25) cs) else None)"
  proof (rule Cons.IH)
    show "cs = [] \<or> last cs \<noteq> CHR 0x0A" using Cons.prems by (cases cs) auto
  qed
  show ?case
  proof (cases "length (c # cs) = 25")
    case True
    then have "length cs < 25" by simp
    with ih have "search_report cs = None" by simp
    with True show ?thesis by (simp split: option.splits)
  next
    case False
    have "match_report (c # cs) = None"
    proof (cases "match_report (c # cs)")
      case (Some i)
      from match_report_length [OF Some] False Cons.prems show ?thesis by simp
    qed simp
    moreover have "25 \<le> length (c # cs) \<Longrightarrow>
        drop (length (c # cs) - 25) (c # cs) = drop (length cs - 25) cs \<and> 25 \<le> length cs"
      using False by (simp add: drop_Cons')
    ultimately show ?thesis using ih by auto
  qed
qed

lemma match_report_25:
  assumes "length t = 25"
  shows "match_report t = (if report_pattern t then Some (take 15 (drop 7 t)) else None)"
proof -
  have "take 3 (drop 22 t) = drop 22 t" using assms by simp
  moreover have "at_dollar (drop 25 t)" using assms by (simp add: at_dollar_def)
  moreover have "report_identifier (take 15 (drop 7 t)) = match_id (drop 7 t)"
    using assms by (simp add: report_identifier_iff match_id_take_iff)
  ultimately show ?thesis using assms by (simp add: match_report_def report_pattern_def)
qed

lemma report_pattern_iff:
  "report_pattern name \<longleftrightarrow> (\<exists>i. report_identifier i \<and> name = ''report-'' @ i @ ''.md'')"
proof
  assume p: "report_pattern name"
  have "drop 22 name = drop 15 (drop 7 name)" by simp
  then have "take 15 (drop 7 name) @ drop 22 name = drop 7 name"
    by (simp only: append_take_drop_id)
  then have "take 7 name @ take 15 (drop 7 name) @ drop 22 name = name"
    by (simp only: append_take_drop_id)
  with p show "\<exists>i. report_identifier i \<and> name = ''report-'' @ i @ ''.md''"
    unfolding report_pattern_def by metis
next
  assume "\<exists>i. report_identifier i \<and> name = ''report-'' @ i @ ''.md''"
  then obtain i where i: "report_identifier i" and n: "name = ''report-'' @ i @ ''.md''"
    by blast
  from i have l: "length i = 15" by (simp add: report_identifier_def)
  with i show "report_pattern name" by (simp add: report_pattern_def n)
qed

lemma fnmatch_last: "fnmatch name \<Longrightarrow> name \<noteq> [] \<and> last name = CHR ''d''"
proof -
  assume f: "fnmatch name"
  then have l: "10 \<le> length name" and d: "drop (length name - 3) name = ''.md''"
    by (simp_all add: fnmatch_def)
  from l have ne: "name \<noteq> []" by auto
  have "drop (length name - 3) name \<noteq> []" using d by simp
  then have "last name = last (drop (length name - 3) name)" by (simp add: last_drop)
  with d ne show ?thesis by simp
qed

lemma search_report_fnmatch:
  assumes "fnmatch name"
  shows "search_report name =
     (if report_pattern (drop (length name - 25) name)
      then Some (take 15 (drop (length name - 18) name)) else None)"
proof -
  from fnmatch_last [OF assms] have "name = [] \<or> last name \<noteq> CHR 0x0A" by simp
  note s = search_report_last [OF this]
  show ?thesis
  proof (cases "25 \<le> length name")
    case True
    then have "length (drop (length name - 25) name) = 25" by simp
    note match_report_25 [OF this]
    moreover have "drop 7 (drop (length name - 25) name) = drop (length name - 18) name"
      using True by simp
    ultimately show ?thesis using s True by simp
  next
    case False
    then have "\<not> report_pattern (drop (length name - 25) name)"
      by (simp add: report_pattern_def)
    with s False show ?thesis by simp
  qed
qed

lemma pattern_fnmatch:
  assumes "take 7 name = ''report-''" "report_pattern (drop (length name - 25) name)"
  shows "fnmatch name"
proof -
  from assms(2) have lu: "length (drop (length name - 25) name) = 25"
    and d: "drop 22 (drop (length name - 25) name) = ''.md''"
    by (simp_all only: report_pattern_def)
  from lu have ln: "25 \<le> length name" by simp
  then have "drop 22 (drop (length name - 25) name) = drop (length name - 3) name" by simp
  with d assms(1) ln show ?thesis by (simp add: fnmatch_def)
qed

subsection \<open>The report identifiers of a directory\<close>

lemma fold_add_report:
  "fold add_report names A = A \<union> {i. \<exists>n \<in> set names. search_report n = Some i}"
  by (induction names arbitrary: A) (auto simp: add_report_def split: option.splits)

lemma report_ids_eq:
  "report_ids dir = {i. \<exists>n \<in> set (glob dir). search_report n = Some i}"
  by (simp add: report_ids_def fold_add_report)

lemma finite_report_ids: "finite (report_ids dir)"
proof -
  have "finite A \<Longrightarrow> finite (fold add_report names A)" for names A
    by (induction names arbitrary: A) (simp_all add: add_report_def split: option.splits)
  then show ?thesis by (simp add: report_ids_def)
qed

lemma report_ids_Some:
  "report_ids (Some names) =
     {take 15 (drop (length n - 18) n) | n.
        n \<in> set names \<and> take 7 n = ''report-'' \<and> report_pattern (drop (length n - 25) n)}"
  (is "?L = ?R")
proof (rule set_eqI)
  fix i
  show "i \<in> ?L \<longleftrightarrow> i \<in> ?R"
  proof
    assume "i \<in> ?L"
    then obtain n where n: "n \<in> set names" "fnmatch n" "search_report n = Some i"
      by (auto simp: report_ids_eq glob_def)
    from n(2) have "take 7 n = ''report-''" by (simp add: fnmatch_def)
    moreover from n(3) have "report_pattern (drop (length n - 25) n)"
      and "i = take 15 (drop (length n - 18) n)"
      by (simp_all add: search_report_fnmatch [OF n(2)] split: if_splits)
    ultimately show "i \<in> ?R" using n(1) by blast
  next
    assume "i \<in> ?R"
    then obtain n where n: "n \<in> set names" "take 7 n = ''report-''"
      "report_pattern (drop (length n - 25) n)" "i = take 15 (drop (length n - 18) n)"
      by blast
    from pattern_fnmatch [OF n(2,3)] have f: "fnmatch n" .
    from search_report_fnmatch [OF f] n(3,4) have "search_report n = Some i" by simp
    with n(1) f show "i \<in> ?L" by (auto simp: report_ids_eq glob_def)
  qed
qed

lemma report_ids_identifier:
  assumes "i \<in> report_ids dir"
  shows "report_identifier i"
proof (cases dir)
  case None
  with assms show ?thesis by (simp add: report_ids_eq glob_def)
next
  case (Some names)
  with assms obtain n where p: "report_pattern (drop (length n - 25) n)"
    and i: "i = take 15 (drop (length n - 18) n)"
    by (auto simp: report_ids_Some)
  from p have "length (drop (length n - 25) n) = 25" by (simp only: report_pattern_def)
  then have "25 \<le> length n" by simp
  then have "drop 7 (drop (length n - 25) n) = drop (length n - 18) n" by simp
  with p i show ?thesis by (simp add: report_pattern_def)
qed

lemma report_ids_set_cong:
  "set names = set names' \<Longrightarrow> report_ids (Some names) = report_ids (Some names')"
  by (simp add: report_ids_eq glob_def)

subsection \<open>The new identifiers and the output\<close>

lemma new_ids_Inr:
  assumes "mentioned_ids (plan_file f) = Inr mentioned"
  shows "new_ids f = Inr (sorted_list_of_set (report_ids (reports_dir f) - mentioned))"
  using assms by (simp add: new_ids_def)

lemma set_new_ids:
  "set (sorted_list_of_set (report_ids dir - mentioned)) = report_ids dir - mentioned"
  by (simp add: finite_report_ids)

lemma report_ids_None: "report_ids None = {}"
  by (simp add: report_ids_def glob_def)

text \<open>The directory of the specification's scenario.\<close>

lemma report_ids_two:
  "set names = {''report-20260205-225448.md'', ''report-20260301-010101.md''} \<Longrightarrow>
   report_ids (Some names) = {''20260205-225448'', ''20260301-010101''}"
proof -
  assume s: "set names = {''report-20260205-225448.md'', ''report-20260301-010101.md''}"
  have "report_ids (Some names) =
      report_ids (Some [''report-20260205-225448.md'', ''report-20260301-010101.md''])"
    by (rule report_ids_set_cong) (simp add: s)
  also have "\<dots> = {''20260205-225448'', ''20260301-010101''}"
    by (simp add: report_ids_def glob_def fnmatch_def add_report_def match_report_def
        match_id_def is_digit_def at_dollar_def insert_commute)
  finally show ?thesis .
qed

subsection \<open>Texts without a digit\<close>


section \<open>Properties\<close>

subsection \<open>What is printed\<close>

text \<open>
  C1. For every reports directory and every plan text (or absent plan file), the lines
  printed are fixed by the difference of the report identifiers and the mentioned
  identifiers: the single line \<^verbatim>\<open>No new findings.\<close> when the difference is empty, and
  otherwise the header followed by one checklist line per identifier, the identifiers
  being the elements of the difference in strictly ascending order.
\<close>

theorem main_prints_sorted_difference:
  assumes "mentioned_ids (plan_file f) = Inr mentioned"
  shows "\<exists>ids. sorted_wrt (<) ids \<and> set ids = report_ids (reports_dir f) - mentioned \<and>
     main f = Inr (if report_ids (reports_dir f) - mentioned = {} then [''No new findings.'']
                   else ''New findings not in PLAN.md:'' # map (\<lambda>i. ''  - [ ] '' @ i) ids)"
proof -
  let ?ids = "sorted_list_of_set (report_ids (reports_dir f) - mentioned)"
  have s: "set ?ids = report_ids (reports_dir f) - mentioned" by (rule set_new_ids)
  then have "?ids = [] \<longleftrightarrow> report_ids (reports_dir f) - mentioned = {}"
    by (metis set_empty)
  then have "main f = Inr (if report_ids (reports_dir f) - mentioned = {}
       then [''No new findings.'']
       else ''New findings not in PLAN.md:'' # map (\<lambda>i. ''  - [ ] '' @ i) ?ids)"
    by (simp add: main_def new_ids_Inr [OF assms] print_ids_eq)
  moreover have "sorted_wrt (<) ?ids" by (rule strict_sorted_list_of_set)
  ultimately show ?thesis using s by blast
qed

text \<open>
  An instance: one report, no plan file.
\<close>

theorem main_prints_sorted_difference_witness:
  "\<exists>ids. sorted_wrt (<) ids \<and>
     set ids = report_ids (Some [''report-20260301-010101.md'']) - {} \<and>
     main \<lparr>reports_dir = Some [''report-20260301-010101.md''], plan_file = Absent\<rparr> =
       Inr (if report_ids (Some [''report-20260301-010101.md'']) - {} = {}
            then [''No new findings.'']
            else ''New findings not in PLAN.md:'' # map (\<lambda>i. ''  - [ ] '' @ i) ids)"
proof -
  have "mentioned_ids (plan_file \<lparr>reports_dir = Some [''report-20260301-010101.md''],
      plan_file = Absent\<rparr>) = Inr {}"
    by (simp add: mentioned_ids_def)
  from main_prints_sorted_difference [OF this] show ?thesis by simp
qed

subsection \<open>The report identifiers\<close>

text \<open>
  C2, as stated, fails: the search in the name is anchored at the end only, so a name that
  starts with \<^verbatim>\<open>report-\<close> and merely ends in the pattern contributes an identifier,
  although the name as a whole does not have the form of the pattern.
\<close>

theorem report_ids_unanchored_counterexample:
  "report_ids (Some [''report-old-report-20260205-225448.md'']) = {''20260205-225448''} \<and>
   \<not> report_pattern ''report-old-report-20260205-225448.md''"
  by (simp add: report_ids_def glob_def fnmatch_def add_report_def match_report_def
      match_id_def is_digit_def at_dollar_def report_pattern_def)

text \<open>
  C2, amended. An entry of the directory contributes an identifier if and only if its
  name starts with \<^verbatim>\<open>report-\<close> and its last 25 characters have the form
  \<^verbatim>\<open>report-<8digits>-<6digits>.md\<close>; the identifier is the
  \<^verbatim>\<open><8digits>-<6digits>\<close> part of these last 25 characters.
\<close>

theorem report_ids_characterised:
  "report_ids (Some names) =
     {take 15 (drop (length n - 18) n) | n.
        n \<in> set names \<and> take 7 n = ''report-'' \<and> report_pattern (drop (length n - 25) n)}"
  by (rule report_ids_Some)

subsection \<open>The mentioned identifiers\<close>

text \<open>
  C3, as stated, fails: matches do not overlap. In the text below the second identifier
  is a substring of the text, and it starts inside the first match, so it is not
  collected.
\<close>

theorem findall_overlap_counterexample:
  "report_identifier ''22222222-333333'' \<and>
   ''11111111-22222222-333333'' = ''11111111-'' @ ''22222222-333333'' @ [] \<and>
   mentioned_ids (Content ''11111111-22222222-333333'') = Inr {''11111111-222222''} \<and>
   ''22222222-333333'' \<notin> {''11111111-222222''}"
  by (simp add: mentioned_ids_def match_id_def is_digit_def report_identifier_def)

text \<open>
  C3, amended. An occurrence of an identifier in the plan text is mentioned whenever no
  match of the pattern starts 9 to 14 characters before it, wherever in the text it
  stands; and every mentioned identifier is a substring of the text of the form eight
  digits, hyphen, six digits.
\<close>

theorem mentioned_ids_occurrence:
  assumes "text = pre @ ident @ post" and "report_identifier ident"
    and "\<forall>k. 9 \<le> k \<and> k \<le> 14 \<and> k \<le> length pre \<longrightarrow> \<not> match_id (drop (length pre - k) text)"
  shows "\<exists>mentioned. mentioned_ids (Content text) = Inr mentioned \<and> ident \<in> mentioned \<and>
     (\<forall>x \<in> mentioned. report_identifier x \<and> (\<exists>p q. text = p @ x @ q))"
proof -
  from assms(2) have l: "length ident = 15" and m: "match_id ident"
    by (simp_all add: report_identifier_iff)
  have d: "drop (length pre) text = ident @ post" by (simp add: assms(1))
  have "match_id (drop (length pre) text)" using m by (simp only: d match_id_append)
  moreover have "\<forall>i. i + 9 \<le> length pre \<and> length pre \<le> i + 14 \<longrightarrow> \<not> match_id (drop i text)"
  proof (intro allI impI)
    fix i assume i: "i + 9 \<le> length pre \<and> length pre \<le> i + 14"
    then have "9 \<le> length pre - i \<and> length pre - i \<le> 14 \<and> length pre - i \<le> length pre"
      by auto
    with assms(3) have "\<not> match_id (drop (length pre - (length pre - i)) text)" by blast
    moreover have "length pre - (length pre - i) = i" using i by auto
    ultimately show "\<not> match_id (drop i text)" by simp
  qed
  ultimately have "take 15 (drop (length pre) text) \<in> set (findall text)"
    by (rule findall_complete)
  then have "ident \<in> set (findall text)" using l by (simp add: d)
  then show ?thesis by (auto simp: mentioned_ids_def dest: findall_sound)
qed

text \<open>
  An instance: a timestamp inside a sentence.
\<close>

theorem mentioned_ids_occurrence_witness:
  "\<exists>mentioned. mentioned_ids (Content ''fixed in 20260205-225448, done'') = Inr mentioned \<and>
     ''20260205-225448'' \<in> mentioned \<and>
     (\<forall>x \<in> mentioned. report_identifier x \<and>
        (\<exists>p q. ''fixed in 20260205-225448, done'' = p @ x @ q))"
proof -
  have a: "''fixed in 20260205-225448, done'' = ''fixed in '' @ ''20260205-225448'' @ '', done''"
    by simp
  have b: "report_identifier ''20260205-225448''"
    by (simp add: report_identifier_def is_digit_def)
  have c: "\<forall>k. 9 \<le> k \<and> k \<le> 14 \<and> k \<le> length ''fixed in '' \<longrightarrow>
      \<not> match_id (drop (length ''fixed in '' - k) ''fixed in 20260205-225448, done'')"
  proof (intro allI impI)
    fix k :: nat
    assume "9 \<le> k \<and> k \<le> 14 \<and> k \<le> length ''fixed in ''"
    then have "k = 9" by simp
    then show "\<not> match_id (drop (length ''fixed in '' - k) ''fixed in 20260205-225448, done'')"
      by (simp add: match_id_def is_digit_def)
  qed
  from mentioned_ids_occurrence [OF a b c] show ?thesis .
qed

text \<open>
  C4. When the plan file does not exist, the mentioned identifiers are the empty set and no
  error is raised.
\<close>

theorem mentioned_ids_absent: "mentioned_ids Absent = Inr {}"
  by (simp add: mentioned_ids_def)

subsection \<open>Nothing new\<close>

text \<open>
  C5. Whenever every report identifier is mentioned (in particular when there is no report
  identifier), the output is the single line \<^verbatim>\<open>No new findings.\<close>
\<close>

theorem no_new_findings_when_subset:
  assumes "mentioned_ids (plan_file f) = Inr mentioned"
    and "report_ids (reports_dir f) \<subseteq> mentioned"
  shows "main f = Inr [''No new findings.'']"
proof -
  from assms(2) have "report_ids (reports_dir f) - mentioned = {}" by blast
  then have "sorted_list_of_set (report_ids (reports_dir f) - mentioned) = []"
    by (simp only: sorted_list_of_set_empty)
  then show ?thesis by (simp only: main_def new_ids_Inr [OF assms(1)] print_ids_eq) simp
qed

text \<open>
  An instance: an empty directory and no plan file.
\<close>

theorem no_new_findings_when_subset_witness:
  "main \<lparr>reports_dir = Some [], plan_file = Absent\<rparr> = Inr [''No new findings.'']"
proof -
  let ?f = "\<lparr>reports_dir = Some [], plan_file = Absent\<rparr>"
  have a: "mentioned_ids (plan_file ?f) = Inr {}" by (simp add: mentioned_ids_def)
  have b: "report_ids (reports_dir ?f) \<subseteq> {}" by (simp add: report_ids_def glob_def)
  from no_new_findings_when_subset [OF a b] show ?thesis .
qed

subsection \<open>Order and shape of the printed identifiers\<close>

text \<open>
  C6. In every run that prints, the identifiers printed are strictly ascending, hence
  distinct, and each of them matches \<^verbatim>\<open>^\d{8}-\d{6}$\<close>.
\<close>

theorem new_ids_ascending_wellformed:
  assumes "main f = Inr out"
  shows "\<exists>ids. new_ids f = Inr ids \<and>
     out = (if ids = [] then [''No new findings.'']
            else ''New findings not in PLAN.md:'' # map (\<lambda>i. ''  - [ ] '' @ i) ids) \<and>
     sorted_wrt (<) ids \<and> distinct ids \<and> (\<forall>i \<in> set ids. matches_anchored_id i)"
proof -
  from assms obtain mentioned where m: "mentioned_ids (plan_file f) = Inr mentioned"
    by (cases "mentioned_ids (plan_file f)") (simp_all add: main_def new_ids_def)
  let ?ids = "sorted_list_of_set (report_ids (reports_dir f) - mentioned)"
  have n: "new_ids f = Inr ?ids" by (rule new_ids_Inr [OF m])
  with assms have o: "out = (if ?ids = [] then [''No new findings.'']
      else ''New findings not in PLAN.md:'' # map (\<lambda>i. ''  - [ ] '' @ i) ?ids)"
    by (simp add: main_def print_ids_eq)
  have "matches_anchored_id i" if "i \<in> set ?ids" for i
  proof -
    from that have "i \<in> report_ids (reports_dir f)" by (simp only: set_new_ids) simp
    then have "report_identifier i" by (rule report_ids_identifier)
    then show ?thesis by (simp add: report_identifier_iff matches_anchored_id_def at_dollar_def)
  qed
  moreover have "sorted_wrt (<) ?ids" by (rule strict_sorted_list_of_set)
  moreover have "distinct ?ids" by (rule distinct_sorted_list_of_set)
  ultimately show ?thesis using n o by blast
qed

text \<open>
  An instance: two reports, enumerated in descending order, and no plan file.
\<close>

theorem new_ids_ascending_wellformed_witness:
  "\<exists>ids. new_ids \<lparr>reports_dir = Some [''report-20260301-010101.md'', ''report-20260205-225448.md''],
              plan_file = Absent\<rparr> = Inr ids \<and>
     [''New findings not in PLAN.md:'', ''  - [ ] 20260205-225448'', ''  - [ ] 20260301-010101''] =
       (if ids = [] then [''No new findings.'']
        else ''New findings not in PLAN.md:'' # map (\<lambda>i. ''  - [ ] '' @ i) ids) \<and>
     sorted_wrt (<) ids \<and> distinct ids \<and> (\<forall>i \<in> set ids. matches_anchored_id i)"
proof -
  let ?f = "\<lparr>reports_dir = Some [''report-20260301-010101.md'', ''report-20260205-225448.md''],
      plan_file = Absent\<rparr>"
  have r: "report_ids (Some [''report-20260301-010101.md'', ''report-20260205-225448.md'']) =
      {''20260205-225448'', ''20260301-010101''}"
    by (rule report_ids_two) auto
  have "sorted_list_of_set {''20260205-225448'', ''20260301-010101''} =
      [''20260205-225448'', ''20260301-010101'']"
    by (simp add: less_char_def less_eq_char_def)
  then have "main ?f = Inr [''New findings not in PLAN.md:'', ''  - [ ] 20260205-225448'',
      ''  - [ ] 20260301-010101'']"
    by (simp add: main_def new_ids_def mentioned_ids_def r print_ids_eq)
  from new_ids_ascending_wellformed [OF this] show ?thesis .
qed

subsection \<open>The scenario of the specification\<close>

text \<open>
  C7. The directory holds exactly \<^verbatim>\<open>report-20260205-225448.md\<close> and
  \<^verbatim>\<open>report-20260301-010101.md\<close>, in any order, and the plan mentions
  \<^verbatim>\<open>20260205-225448\<close> only: the output is the header and the line of
  \<^verbatim>\<open>20260301-010101\<close>.
\<close>

theorem scenario_one_new_report:
  assumes "set names = {''report-20260205-225448.md'', ''report-20260301-010101.md''}"
    and "mentioned_ids p = Inr {''20260205-225448''}"
  shows "main \<lparr>reports_dir = Some names, plan_file = p\<rparr> =
     Inr [''New findings not in PLAN.md:'', ''  - [ ] 20260301-010101'']"
proof -
  have "report_ids (Some names) - {''20260205-225448''} = {''20260301-010101''}"
    by (simp add: report_ids_two [OF assms(1)])
  then show ?thesis
    using assms(2) by (simp add: main_def new_ids_def print_ids_eq)
qed

text \<open>
  An instance: a plan with one checked line.
\<close>

theorem scenario_one_new_report_witness:
  "main \<lparr>reports_dir = Some [''report-20260205-225448.md'', ''report-20260301-010101.md''],
         plan_file = Content ''- [x] 20260205-225448 fixed''\<rparr> =
     Inr [''New findings not in PLAN.md:'', ''  - [ ] 20260301-010101'']"
proof -
  have a: "set [''report-20260205-225448.md'', ''report-20260301-010101.md''] =
      {''report-20260205-225448.md'', ''report-20260301-010101.md''}" by simp
  have b: "mentioned_ids (Content ''- [x] 20260205-225448 fixed'') = Inr {''20260205-225448''}"
    by (simp add: mentioned_ids_def match_id_def is_digit_def)
  from scenario_one_new_report [OF a b] show ?thesis .
qed

subsection \<open>Arbitrary input\<close>



subsection \<open>Two runs\<close>

text \<open>
  C9. A run leaves the file system as it found it, a second run on it gives the result
  of the first, and two runs on the same plan and the same set of directory entries,
  in whatever order the entries are enumerated, give the same output.
\<close>

theorem run_deterministic_readonly:
  "snd (run f) = f \<and> run (snd (run f)) = run f \<and>
   (set names = set names' \<longrightarrow>
      fst (run \<lparr>reports_dir = Some names, plan_file = p\<rparr>) =
      fst (run \<lparr>reports_dir = Some names', plan_file = p\<rparr>))"
proof (intro conjI impI)
  show "snd (run f) = f" by (simp add: run_def)
  show "run (snd (run f)) = run f" by (simp add: run_def)
next
  assume "set names = set names'"
  then have "report_ids (Some names) = report_ids (Some names')" by (rule report_ids_set_cong)
  then show "fst (run \<lparr>reports_dir = Some names, plan_file = p\<rparr>) =
      fst (run \<lparr>reports_dir = Some names', plan_file = p\<rparr>)"
    by (cases "mentioned_ids p") (simp_all add: run_def main_def new_ids_def)
qed

text \<open>
  An instance: the same two entries, enumerated in both orders.
\<close>

theorem run_deterministic_readonly_witness:
  "fst (run \<lparr>reports_dir = Some [''report-20260205-225448.md'', ''report-20260301-010101.md''],
             plan_file = Content ''20260205-225448''\<rparr>) =
   fst (run \<lparr>reports_dir = Some [''report-20260301-010101.md'', ''report-20260205-225448.md''],
             plan_file = Content ''20260205-225448''\<rparr>)"
proof -
  have "set [''report-20260205-225448.md'', ''report-20260301-010101.md''] =
      set [''report-20260301-010101.md'', ''report-20260205-225448.md'']" by auto
  with run_deterministic_readonly [of "\<lparr>reports_dir = None, plan_file = Absent\<rparr>"
      "[''report-20260205-225448.md'', ''report-20260301-010101.md'']"
      "[''report-20260301-010101.md'', ''report-20260205-225448.md'']"
      "Content ''20260205-225448''"]
  show ?thesis by blast
qed

subsection \<open>A missing reports directory\<close>

text \<open>
  C10. When the reports directory does not exist, no error is raised: there is no report
  identifier, and whatever the plan text is, or when there is no plan file, the output is
  the single line \<^verbatim>\<open>No new findings.\<close>
\<close>

theorem missing_directory_tolerated:
  "report_ids None = {} \<and>
   main \<lparr>reports_dir = None, plan_file = Absent\<rparr> = Inr [''No new findings.''] \<and>
   main \<lparr>reports_dir = None, plan_file = Content text\<rparr> = Inr [''No new findings.'']"
proof -
  have "report_ids None = {}" by (simp add: report_ids_def glob_def)
  then show ?thesis by (simp add: main_def new_ids_def mentioned_ids_def print_ids_eq)
qed

end
